theory Spec2Isabelle
  imports Main
begin

section \<open>Preprocessing tokens, macros and directive lines\<close>

text \<open>
  The repository is one C header, \<^verbatim>\<open>memory_notation.h\<close>. It contains no C
  declarations: only an include guard and \<^verbatim>\<open>#define\<close> directives. What the
  header does is therefore what the C preprocessor does with these directives, and the
  embedding is the header as a list of directive lines together with the part of the
  preprocessor that reads them: conditional inclusion, macro definition and macro
  replacement.

  A preprocessing token is an identifier, a parenthesis, a comma or anything else. An
  identifier that was met while its own macro was being replaced is marked so that it
  is never replaced later (\<open>NoExpand\<close>).
\<close>

datatype token =
    Ident string
  | NoExpand string
  | LParen
  | RParen
  | Comma
  | Other string

text \<open>
  An object-like macro has a replacement list; a function-like macro has a parameter
  list as well. The operators \<^verbatim>\<open>#\<close> and \<^verbatim>\<open>##\<close> and variadic macros
  do not occur in the header and are not modelled.
\<close>

datatype macro =
    Object_like (replacement: "token list")
  | Function_like (params: "string list") (replacement: "token list")

text \<open>The three kinds of directive the header uses.\<close>

datatype line =
    Ifndef string
  | Define string macro
  | Endif

datatype pp_error =
    Macro_redefined string
  | Endif_without_if
  | Unterminated_conditional
  | Unterminated_argument_list string
  | Wrong_argument_count string nat nat

type_synonym macro_table = "(string \<times> macro) list"

text \<open>
  The state of the preprocessor: the macros defined so far, the stack of open
  conditional groups of the current file (one flag per group: is the group kept?), and
  the names of the \<^verbatim>\<open>#define\<close> directives executed so far, in order.
\<close>

record pp_state =
  macros :: macro_table
  conds :: "bool list"
  defined :: "string list"

definition initial_state :: pp_state where
  "initial_state = \<lparr>macros = [], conds = [], defined = []\<rparr>"

definition active :: "pp_state \<Rightarrow> bool" where
  "active st = (False \<notin> set (conds st))"

section \<open>The header\<close>

text \<open>
  Lines 43 to 98 of \<^verbatim>\<open>memory_notation.h\<close>, one entry per directive, in the
  order of the file. Comments (the licence and the usage example) and blank lines are
  removed before directives are executed and leave no entry.
\<close>

definition memory_notation_h :: "line list" where
  "memory_notation_h =
    [Ifndef ''__MEMORY_NOTATION_H__'',
     Define ''__MEMORY_NOTATION_H__'' (Object_like []),
     Define ''memory_guarded'' (Object_like []),
     Define ''memory_owner'' (Object_like []),
     Define ''memory_take_possession'' (Object_like []),
     Define ''memory_keep_alive'' (Object_like []),
     Define ''memory_release_after_of'' (Function_like [''mem''] []),
     Define ''memory_owner_of'' (Function_like [''mem''] []),
     Define ''memory_ref_count'' (Object_like []),
     Define ''memory_ptr_inout'' (Object_like []),
     Define ''memory_ptr_out'' (Object_like []),
     Define ''m_g'' (Object_like []),
     Define ''m_o'' (Object_like []),
     Define ''m_t'' (Object_like []),
     Define ''m_o_'' (Function_like [''mem''] []),
     Define ''m_rc'' (Object_like []),
     Define ''m_io'' (Object_like []),
     Define ''m_out'' (Object_like []),
     Define ''memory_cleanup_'' (Function_like [''f'']
       [Ident ''__attribute__'', LParen, LParen, Ident ''cleanup'', LParen, Ident ''f'',
        RParen, RParen, RParen]),
     Endif]"

section \<open>Executing directives\<close>

text \<open>
  \<^verbatim>\<open>#ifndef\<close> opens a group that is kept when the name is not a macro;
  \<^verbatim>\<open>#endif\<close> closes the innermost group. \<^verbatim>\<open>#define\<close> is executed only
  when every open group is kept. Defining a name again is allowed when the two
  definitions are the same (same kind, parameters and replacement list) and is an error
  otherwise.
\<close>

fun pp_line :: "line \<Rightarrow> pp_state \<Rightarrow> pp_error + pp_state" where
  "pp_line (Ifndef n) st = Inr (st\<lparr>conds := (map_of (macros st) n = None) # conds st\<rparr>)"
| "pp_line Endif st =
     (case conds st of
        [] \<Rightarrow> Inl Endif_without_if
      | c # cs \<Rightarrow> Inr (st\<lparr>conds := cs\<rparr>))"
| "pp_line (Define n m) st =
     (if \<not> active st then Inr st
      else case map_of (macros st) n of
        None \<Rightarrow> Inr (st\<lparr>macros := (n, m) # macros st, defined := defined st @ [n]\<rparr>)
      | Some m' \<Rightarrow>
          if m' = m then Inr (st\<lparr>defined := defined st @ [n]\<rparr>)
          else Inl (Macro_redefined n))"

fun pp_lines :: "line list \<Rightarrow> pp_state \<Rightarrow> pp_error + pp_state" where
  "pp_lines [] st = Inr st"
| "pp_lines (l # ls) st =
     (case pp_line l st of Inl e \<Rightarrow> Inl e | Inr st' \<Rightarrow> pp_lines ls st')"

text \<open>
  \<^verbatim>\<open>#include\<close> of a file: nothing happens inside a skipped group; otherwise the
  lines of the file are executed with a conditional stack of their own, which must be
  empty again at the end of the file.
\<close>

definition include_file :: "line list \<Rightarrow> pp_state \<Rightarrow> pp_error + pp_state" where
  "include_file ls st =
     (if \<not> active st then Inr st
      else case pp_lines ls (st\<lparr>conds := []\<rparr>) of
        Inl e \<Rightarrow> Inl e
      | Inr st' \<Rightarrow>
          if conds st' = [] then Inr (st'\<lparr>conds := conds st\<rparr>)
          else Inl Unterminated_conditional)"

text \<open>A translation unit that includes the same file \<open>k\<close> times in a row.\<close>

fun include_repeatedly :: "nat \<Rightarrow> line list \<Rightarrow> pp_state \<Rightarrow> pp_error + pp_state" where
  "include_repeatedly 0 ls st = Inr st"
| "include_repeatedly (Suc k) ls st =
     (case include_file ls st of
        Inl e \<Rightarrow> Inl e
      | Inr st' \<Rightarrow> include_repeatedly k ls st')"

text \<open>The names a file defines, read off its \<^verbatim>\<open>#define\<close> lines.\<close>

fun defines_of :: "line list \<Rightarrow> (string \<times> macro) list" where
  "defines_of [] = []"
| "defines_of (Define n m # ls) = (n, m) # defines_of ls"
| "defines_of (l # ls) = defines_of ls"

section \<open>Macro replacement\<close>

text \<open>
  The arguments of a function-like macro invocation, read from the tokens after the
  opening parenthesis: commas separate arguments only outside nested parentheses, and
  the matching closing parenthesis ends the list. The result is the arguments and the
  tokens after the invocation, or \<open>None\<close> when the list never ends.
\<close>

fun collect_args :: "nat \<Rightarrow> token list \<Rightarrow> token list list \<Rightarrow> token list
    \<Rightarrow> (token list list \<times> token list) option" where
  "collect_args d cur args [] = None"
| "collect_args d cur args (LParen # ts) = collect_args (Suc d) (cur @ [LParen]) args ts"
| "collect_args 0 cur args (RParen # ts) = Some (args @ [cur], ts)"
| "collect_args (Suc d) cur args (RParen # ts) = collect_args d (cur @ [RParen]) args ts"
| "collect_args 0 cur args (Comma # ts) = collect_args 0 [] (args @ [cur]) ts"
| "collect_args d cur args (t # ts) = collect_args d (cur @ [t]) args ts"

text \<open>A macro without parameters is invoked with an empty pair of parentheses.\<close>

definition actual_args :: "string list \<Rightarrow> token list list \<Rightarrow> token list list" where
  "actual_args ps args = (if ps = [] \<and> args = [[]] then [] else args)"

fun substitute :: "(string \<times> token list) list \<Rightarrow> token list \<Rightarrow> token list" where
  "substitute \<sigma> [] = []"
| "substitute \<sigma> (Ident x # body) =
     (case map_of \<sigma> x of Some a \<Rightarrow> a | None \<Rightarrow> [Ident x]) @ substitute \<sigma> body"
| "substitute \<sigma> (t # body) = t # substitute \<sigma> body"

fun prepend :: "token list \<Rightarrow> pp_error + token list \<Rightarrow> pp_error + token list" where
  "prepend out (Inl e) = Inl e"
| "prepend out (Inr ts) = Inr (out @ ts)"

fun sequence :: "(pp_error + 'a) list \<Rightarrow> pp_error + 'a list" where
  "sequence [] = Inr []"
| "sequence (Inl e # rs) = Inl e"
| "sequence (Inr x # rs) =
     (case sequence rs of Inl e \<Rightarrow> Inl e | Inr xs \<Rightarrow> Inr (x # xs))"

text \<open>
  After a replacement list has been rescanned, scanning goes on with the tokens that
  follow the invocation. A function-like macro name left at the very end of the
  rescanned list is therefore read again together with those tokens, because the
  parenthesis that makes it an invocation may come from there.
  \<open>split_trailing\<close> cuts such a name off the end of the rescanned list.
\<close>

definition function_like :: "macro_table \<Rightarrow> string \<Rightarrow> bool" where
  "function_like env n =
     (case map_of env n of Some (Function_like ps body) \<Rightarrow> True | _ \<Rightarrow> False)"

definition split_trailing :: "macro_table \<Rightarrow> token list \<Rightarrow> token list \<times> token list" where
  "split_trailing env out =
     (case rev out of
        Ident n # r \<Rightarrow> if function_like env n then (rev r, [Ident n]) else (out, [])
      | _ \<Rightarrow> (out, []))"

text \<open>
  Macro replacement of a token sequence. \<open>hide\<close> holds the names of the macros being
  replaced at this point: such a name is not replaced again and is marked. An
  object-like macro name is replaced by its replacement list, which is rescanned with
  the name hidden. A function-like macro name is an invocation only when a parenthesis
  follows; each argument whose parameter occurs in the replacement list is fully
  replaced first, then substituted, and the result is rescanned with the name hidden.
  Once the rescan is over the name is no longer hidden, and scanning continues with a
  trailing function-like macro name of the result, if any, and the tokens after the
  invocation. An argument list that opens inside a replacement list must also close
  inside it: one that would close only in the following tokens is reported as
  unterminated.
\<close>

function expand :: "macro_table \<Rightarrow> string list \<Rightarrow> token list \<Rightarrow> pp_error + token list" where
  "expand env hide [] = Inr []"
| "expand env hide (Ident n # ts) =
     (if n \<in> set hide then prepend [NoExpand n] (expand env hide ts)
      else case map_of env n of
        None \<Rightarrow> prepend [Ident n] (expand env hide ts)
      | Some (Object_like body) \<Rightarrow>
          (case expand env (n # hide) body of
             Inl e \<Rightarrow> Inl e
           | Inr out \<Rightarrow>
               (case split_trailing env out of
                  (done, again) \<Rightarrow> prepend done (expand env hide (again @ ts))))
      | Some (Function_like ps body) \<Rightarrow>
          (case ts of
             LParen # ts' \<Rightarrow>
               (case collect_args 0 [] [] ts' of
                  None \<Rightarrow> Inl (Unterminated_argument_list n)
                | Some (args, rest) \<Rightarrow>
                    if length (actual_args ps args) \<noteq> length ps
                    then Inl (Wrong_argument_count n (length ps) (length (actual_args ps args)))
                    else
                      (case sequence (map (\<lambda>(p, a).
                                if Ident p \<in> set body
                                then (case expand env hide a of
                                        Inl e \<Rightarrow> Inl e
                                      | Inr a' \<Rightarrow> Inr (p, a'))
                                else Inr (p, a))
                              (zip ps (actual_args ps args))) of
                         Inl e \<Rightarrow> Inl e
                       | Inr \<sigma> \<Rightarrow>
                           (case expand env (n # hide) (substitute \<sigma> body) of
                              Inl e \<Rightarrow> Inl e
                            | Inr out \<Rightarrow>
                                (case split_trailing env out of
                                   (done, again) \<Rightarrow>
                                     prepend done (expand env hide (again @ rest))))))
           | _ \<Rightarrow> prepend [Ident n] (expand env hide ts)))"
| "expand env hide (NoExpand n # ts) = prepend [NoExpand n] (expand env hide ts)"
| "expand env hide (LParen # ts) = prepend [LParen] (expand env hide ts)"
| "expand env hide (RParen # ts) = prepend [RParen] (expand env hide ts)"
| "expand env hide (Comma # ts) = prepend [Comma] (expand env hide ts)"
| "expand env hide (Other s # ts) = prepend [Other s] (expand env hide ts)"
  by pat_completeness auto

text \<open>
  Replacement ends: a rescan hides one more macro of the table; every other step works
  on a shorter token sequence, or on one of the same length that now starts with a
  function-like macro name where an object-like one stood.
\<close>

termination
proof -
  have size: "sum_list (map length as) + length as + length rest =
      sum_list (map length args) + length args + length cur + length ts"
    if "collect_args d cur args ts = Some (as, rest)"
    for d cur args ts as rest
    using that by (induction d cur args ts rule: collect_args.induct) auto
  have nonempty: "as \<noteq> []"
    if "collect_args d cur args ts = Some (as, rest)"
    for d cur args ts as rest
    using that by (induction d cur args ts rule: collect_args.induct) auto
  have hidden: "card (fst ` set env - insert n (set hide)) < card (fst ` set env - set hide)"
    if "n \<notin> set hide" and "map_of env n = Some m"
    for env :: macro_table and n hide m
  proof (rule psubset_card_mono)
    show "finite (fst ` set env - set hide)" by simp
    have "n \<in> fst ` set env"
      using that(2) by (metis map_of_eq_None_iff option.distinct(1))
    with that(1) show "fst ` set env - insert n (set hide) \<subset> fst ` set env - set hide"
      by auto
  qed
  have arg_shorter: "length a < Suc (Suc (length ts))"
    if "collect_args 0 [] [] ts = Some (as, rest)"
      and "(p, a) \<in> set (zip ps (actual_args ps as))"
    for ts as rest p a ps
  proof -
    from that(2) have "a \<in> set (actual_args ps as)"
      by (rule set_zip_rightD)
    then have "a \<in> set as"
      by (auto simp: actual_args_def split: if_splits)
    then have "length a \<le> sum_list (map length as)"
      by (simp add: member_le_sum_list)
    then show ?thesis
      using size[OF that(1)] by simp
  qed
  have rest_shorter: "Suc (length rest) < Suc (Suc (length ts))"
    if "collect_args 0 [] [] ts = Some (as, rest)"
    for ts as rest
  proof -
    have "as \<noteq> []"
      using nonempty[OF that] .
    then show ?thesis using size[OF that] by (cases as) auto
  qed
  have trailing: "again = [] \<or> (\<exists>n. again = [Ident n] \<and> function_like env n)"
    if "split_trailing env out = (done, again)"
    for env out "done" again
    using that by (auto simp: split_trailing_def split: list.splits token.splits if_splits)
  define first_is_function_like :: "macro_table \<Rightarrow> token list \<Rightarrow> bool" where
    "first_is_function_like env ts =
       (case ts of Ident n # r \<Rightarrow> function_like env n | _ \<Rightarrow> False)" for env ts
  show ?thesis
  proof (relation "inv_image (less_than <*lex*> less_than <*lex*> less_than)
      (\<lambda>(env, hide, ts). (card (fst ` set env - set hide), length ts,
         if first_is_function_like env ts then 0 else (1::nat)))")
  qed (auto simp: hidden first_is_function_like_def function_like_def
         intro: arg_shorter dest!: trailing[OF sym] dest: rest_shorter)
qed

text \<open>The state after including the header at the start of a translation unit.\<close>

definition header_state :: pp_state where
  "header_state =
     (case include_file memory_notation_h initial_state of
        Inl e \<Rightarrow> initial_state
      | Inr st \<Rightarrow> st)"



section \<open>Facts about directive execution and replacement\<close>

lemma prepend_Nil: "prepend [] r = r"
  by (cases r) simp_all

lemma expand_erased_object:
  "map_of env n = Some (Object_like []) \<Longrightarrow> n \<notin> set hide \<Longrightarrow>
   expand env hide (Ident n # rest) = expand env hide rest"
  by (simp add: prepend_Nil split_trailing_def)

lemma expand_erased_function:
  "map_of env n = Some (Function_like [p] []) \<Longrightarrow> n \<notin> set hide \<Longrightarrow>
   collect_args 0 [] [] ts = Some ([mem], rest) \<Longrightarrow>
   expand env hide (Ident n # LParen # ts) = expand env hide rest"
  by (simp add: prepend_Nil actual_args_def split_trailing_def)

lemma pp_line_keeps:
  "pp_line l st = Inr st' \<Longrightarrow> map_of (macros st) x = Some m \<Longrightarrow>
   map_of (macros st') x = Some m"
  by (cases l) (auto split: if_splits option.splits list.splits)

lemma pp_lines_keeps:
  "pp_lines ls st = Inr st' \<Longrightarrow> map_of (macros st) x = Some m \<Longrightarrow>
   map_of (macros st') x = Some m"
proof (induction ls arbitrary: st)
  case Nil
  then show ?case by simp
next
  case (Cons l ls)
  then show ?case
    by (auto split: sum.splits dest: pp_line_keeps)
qed

lemma pp_lines_append:
  "pp_lines (xs @ ys) st =
     (case pp_lines xs st of Inl e \<Rightarrow> Inl e | Inr st' \<Rightarrow> pp_lines ys st')"
  by (induction xs arbitrary: st) (auto split: sum.splits)

lemma pp_defines_skipped:
  "\<not> active st \<Longrightarrow> pp_lines (map (\<lambda>(n, m). Define n m) ds) st = Inr st"
  by (induction ds) auto

lemma pp_defines_active:
  assumes "pp_lines (map (\<lambda>(n, m). Define n m) ds) st = Inr st'" and "active st"
  shows "conds st' = conds st"
    and "defined st' = defined st @ map fst ds"
    and "(n, m) \<in> set ds \<Longrightarrow> map_of (macros st') n = Some m"
    and "x \<notin> fst ` set ds \<Longrightarrow> map_of (macros st') x = map_of (macros st) x"
  using assms
proof (induction ds arbitrary: st)
  case Nil
  {
    case 1 then show ?case by simp
  next
    case 2 then show ?case by simp
  next
    case 3 then show ?case by simp
  next
    case 4 then show ?case by simp
  }
next
  case (Cons d ds)
  obtain n0 m0 where d: "d = (n0, m0)" by (cases d)
  {
    case 1
    then obtain st1 where s1: "pp_line (Define n0 m0) st = Inr st1"
      and r: "pp_lines (map (\<lambda>(n, m). Define n m) ds) st1 = Inr st'"
      by (auto simp: d split: sum.splits)
    from s1 1 have "active st1" "conds st1 = conds st"
      by (auto simp: active_def split: if_splits option.splits)
    with Cons.IH(1)[OF r] show ?case by simp
  next
    case 2
    then obtain st1 where s1: "pp_line (Define n0 m0) st = Inr st1"
      and r: "pp_lines (map (\<lambda>(n, m). Define n m) ds) st1 = Inr st'"
      by (auto simp: d split: sum.splits)
    from s1 2 have "active st1" "defined st1 = defined st @ [n0]"
      by (auto simp: active_def split: if_splits option.splits)
    with Cons.IH(2)[OF r] show ?case by (simp add: d)
  next
    case 3
    then obtain st1 where s1: "pp_line (Define n0 m0) st = Inr st1"
      and r: "pp_lines (map (\<lambda>(n, m). Define n m) ds) st1 = Inr st'"
      by (auto simp: d split: sum.splits)
    from s1 3 have a1: "active st1" and l1: "map_of (macros st1) n0 = Some m0"
      by (auto simp: active_def split: if_splits option.splits)
    show ?case
    proof (cases "(n, m) \<in> set ds")
      case True
      then show ?thesis using Cons.IH(3)[OF _ r a1] by simp
    next
      case False
      with 3 have "n = n0" "m = m0" by (auto simp: d)
      then show ?thesis using pp_lines_keeps[OF r l1] by simp
    qed
  next
    case 4
    then obtain st1 where s1: "pp_line (Define n0 m0) st = Inr st1"
      and r: "pp_lines (map (\<lambda>(n, m). Define n m) ds) st1 = Inr st'"
      by (auto simp: d split: sum.splits)
    from 4 have "x \<noteq> n0" "x \<notin> fst ` set ds" by (auto simp: d)
    moreover from s1 4 \<open>x \<noteq> n0\<close> have "active st1" "map_of (macros st1) x = map_of (macros st) x"
      by (auto simp: active_def split: if_splits option.splits)
    ultimately show ?case using Cons.IH(4)[OF _ r] by simp
  }
qed


lemma header_shape:
  "memory_notation_h =
     Ifndef ''__MEMORY_NOTATION_H__'' #
     map (\<lambda>(n, m). Define n m) (defines_of memory_notation_h) @ [Endif]"
  by (simp add: memory_notation_h_def)

lemma include_header_skipped:
  assumes "map_of (macros st) ''__MEMORY_NOTATION_H__'' \<noteq> None"
  shows "include_file memory_notation_h st = Inr st"
proof (cases "active st")
  case False
  then show ?thesis by (simp add: include_file_def)
next
  case True
  let ?s = "st\<lparr>conds := [False]\<rparr>"
  have "\<not> active ?s" by (simp add: active_def)
  then have "pp_lines (map (\<lambda>(n, m). Define n m) (defines_of memory_notation_h)) ?s = Inr ?s"
    by (rule pp_defines_skipped)
  moreover from assms obtain m0 where "map_of (macros st) ''__MEMORY_NOTATION_H__'' = Some m0"
    by auto
  ultimately have "pp_lines memory_notation_h (st\<lparr>conds := []\<rparr>) = Inr (st\<lparr>conds := []\<rparr>)"
    by (subst header_shape) (simp add: pp_lines_append)
  with True show ?thesis by (simp add: include_file_def)
qed

lemma include_header_defines:
  assumes inc: "include_file memory_notation_h st = Inr st'"
    and act: "active st"
    and new: "map_of (macros st) ''__MEMORY_NOTATION_H__'' = None"
  shows "conds st' = conds st"
    and "defined st' = defined st @ map fst (defines_of memory_notation_h)"
    and "(n, m) \<in> set (defines_of memory_notation_h) \<Longrightarrow> map_of (macros st') n = Some m"
    and "x \<notin> fst ` set (defines_of memory_notation_h) \<Longrightarrow>
         map_of (macros st') x = map_of (macros st) x"
proof -
  let ?s = "st\<lparr>conds := [True]\<rparr>"
  let ?ds = "defines_of memory_notation_h"
  have a: "active ?s" by (simp add: active_def)
  from inc act obtain s2 where s2: "pp_lines memory_notation_h (st\<lparr>conds := []\<rparr>) = Inr s2"
    and st': "st' = s2\<lparr>conds := conds st\<rparr>"
    by (auto simp: include_file_def split: sum.splits if_splits)
  from s2 new obtain s1 where s1: "pp_lines (map (\<lambda>(n, m). Define n m) ?ds) ?s = Inr s1"
    and e: "pp_line Endif s1 = Inr s2"
    by (subst (asm) header_shape) (auto simp: pp_lines_append split: sum.splits)
  from e have m: "macros s2 = macros s1" "defined s2 = defined s1"
    by (auto split: list.splits)
  show "conds st' = conds st" by (simp add: st')
  show "defined st' = defined st @ map fst ?ds"
    using pp_defines_active(2)[OF s1 a] m by (simp add: st')
  show "map_of (macros st') n = Some m" if "(n, m) \<in> set ?ds"
    using pp_defines_active(3)[OF s1 a that] m by (simp add: st')
  show "map_of (macros st') x = map_of (macros st) x" if "x \<notin> fst ` set ?ds"
    using pp_defines_active(4)[OF s1 a that] m by (simp add: st')
qed

lemma include_header_initial:
  "include_file memory_notation_h initial_state =
     Inr \<lparr>macros = rev (defines_of memory_notation_h), conds = [],
          defined = map fst (defines_of memory_notation_h)\<rparr>"
  by (simp add: include_file_def memory_notation_h_def initial_state_def active_def)


lemma header_state_eq:
  "header_state = \<lparr>macros = rev (defines_of memory_notation_h), conds = [],
          defined = map fst (defines_of memory_notation_h)\<rparr>"
  by (simp add: header_state_def include_header_initial)

lemma include_header_lookup:
  assumes "include_file memory_notation_h st = Inr st'"
    and "active st"
    and "map_of (macros st) ''__MEMORY_NOTATION_H__'' = None"
  shows "map_of (macros st') ''memory_guarded'' = Some (Object_like [])"
    and "map_of (macros st') ''memory_owner'' = Some (Object_like [])"
    and "map_of (macros st') ''memory_take_possession'' = Some (Object_like [])"
    and "map_of (macros st') ''memory_keep_alive'' = Some (Object_like [])"
    and "map_of (macros st') ''memory_release_after_of'' = Some (Function_like [''mem''] [])"
    and "map_of (macros st') ''memory_owner_of'' = Some (Function_like [''mem''] [])"
    and "map_of (macros st') ''memory_ref_count'' = Some (Object_like [])"
    and "map_of (macros st') ''memory_ptr_inout'' = Some (Object_like [])"
    and "map_of (macros st') ''memory_ptr_out'' = Some (Object_like [])"
    and "map_of (macros st') ''m_g'' = Some (Object_like [])"
    and "map_of (macros st') ''m_o'' = Some (Object_like [])"
    and "map_of (macros st') ''m_t'' = Some (Object_like [])"
    and "map_of (macros st') ''m_o_'' = Some (Function_like [''mem''] [])"
    and "map_of (macros st') ''m_rc'' = Some (Object_like [])"
    and "map_of (macros st') ''m_io'' = Some (Object_like [])"
    and "map_of (macros st') ''m_out'' = Some (Object_like [])"
    and "map_of (macros st') ''memory_cleanup_'' = Some (Function_like [''f'']
       [Ident ''__attribute__'', LParen, LParen, Ident ''cleanup'', LParen, Ident ''f'',
        RParen, RParen, RParen])"
    and "map_of (macros st') ''__MEMORY_NOTATION_H__'' = Some (Object_like [])"
  by (rule include_header_defines(3)[OF assms], simp add: memory_notation_h_def)+

lemma initial_state_ready:
  "active initial_state"
  "map_of (macros initial_state) ''__MEMORY_NOTATION_H__'' = None"
  by (simp_all add: initial_state_def active_def)

lemma include_header_initial_state:
  "include_file memory_notation_h initial_state = Inr header_state"
  by (simp add: header_state_eq include_header_initial)

lemma include_header_again:
  assumes "include_file memory_notation_h st = Inr st1"
  shows "include_file memory_notation_h st1 = Inr st1"
proof (cases "active st \<and> map_of (macros st) ''__MEMORY_NOTATION_H__'' = None")
  case True
  then have "map_of (macros st1) ''__MEMORY_NOTATION_H__'' \<noteq> None"
    using include_header_lookup(18)[OF assms] by simp
  then show ?thesis by (rule include_header_skipped)
next
  case False
  have "include_file memory_notation_h st = Inr st"
  proof (cases "active st")
    case True
    with False show ?thesis by (simp add: include_header_skipped)
  next
    case False
    then show ?thesis by (simp add: include_file_def)
  qed
  with assms show ?thesis by simp
qed

section \<open>The claims about the header\<close>

text \<open>
  Claim C1. After the header has been included (in kept text, with the guard not yet
  defined), each of the nine annotation macros is in the macro table with an empty
  replacement list, and an occurrence in the source is replaced by no tokens at all:
  the text with the annotation in front is preprocessed exactly like the text without
  it. For \<^verbatim>\<open>memory_release_after_of(mem)\<close> and \<^verbatim>\<open>memory_owner_of(mem)\<close>
  this holds for every argument \<open>mem\<close>, that is, whenever the tokens after the opening
  parenthesis read as one argument \<open>mem\<close> followed by \<open>rest\<close>. The argument is
  dropped unread, so the annotations enforce nothing.
\<close>

theorem annotations_expand_to_nothing:
  assumes "include_file memory_notation_h st = Inr st'"
    and "active st"
    and "map_of (macros st) ''__MEMORY_NOTATION_H__'' = None"
  shows "(\<forall>n \<in> set [''memory_guarded'', ''memory_owner'', ''memory_take_possession'',
                   ''memory_keep_alive'', ''memory_ref_count'', ''memory_ptr_inout'',
                   ''memory_ptr_out''].
            map_of (macros st') n = Some (Object_like []) \<and>
            (\<forall>rest. expand (macros st') [] (Ident n # rest) = expand (macros st') [] rest))
       \<and> (\<forall>n \<in> set [''memory_release_after_of'', ''memory_owner_of''].
            map_of (macros st') n = Some (Function_like [''mem''] []) \<and>
            (\<forall>ts mem rest. collect_args 0 [] [] ts = Some ([mem], rest) \<longrightarrow>
               expand (macros st') [] (Ident n # LParen # ts) = expand (macros st') [] rest))"
  using include_header_lookup[OF assms]
  by (simp add: expand_erased_object expand_erased_function del: expand.simps)


text \<open>
  The hypotheses of C1 hold for a translation unit that includes the header first; the
  declarations are those of the usage example in the header.
\<close>

theorem annotations_expand_to_nothing_witness:
  "include_file memory_notation_h initial_state = Inr header_state
   \<and> active initial_state
   \<and> map_of (macros initial_state) ''__MEMORY_NOTATION_H__'' = None
   \<and> expand (macros header_state) []
        [Ident ''memory_guarded'', Ident ''char'', Other ''*'', Ident ''name'', Other '';'']
      = Inr [Ident ''char'', Other ''*'', Ident ''name'', Other '';'']
   \<and> expand (macros header_state) []
        [Ident ''memory_owner_of'', LParen, Ident ''ex'', Other ''->'', Ident ''id'', RParen,
         Ident ''char'', Other ''*'', Ident ''id'', Other '';'']
      = Inr [Ident ''char'', Other ''*'', Ident ''id'', Other '';'']"
proof -
  note h = include_header_initial_state initial_state_ready
  have a: "collect_args 0 [] []
      [Ident ''ex'', Other ''->'', Ident ''id'', RParen,
       Ident ''char'', Other ''*'', Ident ''id'', Other '';'']
    = Some ([[Ident ''ex'', Other ''->'', Ident ''id'']],
       [Ident ''char'', Other ''*'', Ident ''id'', Other '';''])"
    by simp
  have r: "map_of (macros header_state) ''char'' = None"
    "map_of (macros header_state) ''name'' = None"
    "map_of (macros header_state) ''id'' = None"
    by (simp_all add: header_state_eq memory_notation_h_def)
  show ?thesis
    using h a annotations_expand_to_nothing[OF h] r
    by (simp del: expand.simps(2) add: expand.simps(2)[where n="''char''"]
         expand.simps(2)[where n="''name''"] expand.simps(2)[where n="''id''"])
qed





text \<open>
  Claim C9. After the header has been included, each short form has the same
  definition as its long form (same kind, same parameters, same replacement list), so
  text that starts with the short form is preprocessed exactly like the same text
  starting with the long form; for \<^verbatim>\<open>m_o_(mem)\<close> and
  \<^verbatim>\<open>memory_owner_of(mem)\<close> for every argument. The names beginning with
  \<^verbatim>\<open>m_\<close> that the inclusion defines are exactly these seven, so
  \<^verbatim>\<open>memory_keep_alive\<close> and \<^verbatim>\<open>memory_release_after_of\<close> have no short
  form of their own.
\<close>

theorem short_forms_same_as_long_forms:
  assumes "include_file memory_notation_h st = Inr st'"
    and "active st"
    and "map_of (macros st) ''__MEMORY_NOTATION_H__'' = None"
  shows "(\<forall>(s, l) \<in> set [(''m_g'', ''memory_guarded''), (''m_o'', ''memory_owner''),
                      (''m_t'', ''memory_take_possession''), (''m_o_'', ''memory_owner_of''),
                      (''m_rc'', ''memory_ref_count''), (''m_io'', ''memory_ptr_inout''),
                      (''m_out'', ''memory_ptr_out'')].
            map_of (macros st') s \<noteq> None \<and> map_of (macros st') s = map_of (macros st') l)
       \<and> (\<forall>(s, l) \<in> set [(''m_g'', ''memory_guarded''), (''m_o'', ''memory_owner''),
                      (''m_t'', ''memory_take_possession''),
                      (''m_rc'', ''memory_ref_count''), (''m_io'', ''memory_ptr_inout''),
                      (''m_out'', ''memory_ptr_out'')].
            \<forall>rest. expand (macros st') [] (Ident s # rest)
                  = expand (macros st') [] (Ident l # rest))
       \<and> (\<forall>ts mem rest. collect_args 0 [] [] ts = Some ([mem], rest) \<longrightarrow>
            expand (macros st') [] (Ident ''m_o_'' # LParen # ts)
            = expand (macros st') [] (Ident ''memory_owner_of'' # LParen # ts))
       \<and> filter (\<lambda>n. take 2 n = ''m_'') (drop (length (defined st)) (defined st'))
           = [''m_g'', ''m_o'', ''m_t'', ''m_o_'', ''m_rc'', ''m_io'', ''m_out'']"
  using include_header_lookup[OF assms] include_header_defines(2)[OF assms]
  by (simp add: expand_erased_object expand_erased_function memory_notation_h_def
        del: expand.simps)

text \<open>
  The hypotheses of C9 hold for a translation unit that includes the header first.
\<close>

theorem short_forms_same_as_long_forms_witness:
  "include_file memory_notation_h initial_state = Inr header_state
   \<and> active initial_state
   \<and> map_of (macros initial_state) ''__MEMORY_NOTATION_H__'' = None
   \<and> map_of (macros header_state) ''m_t'' = Some (Object_like [])
   \<and> map_of (macros header_state) ''memory_take_possession'' = Some (Object_like [])
   \<and> expand (macros header_state) [] [Ident ''m_t'', Ident ''char'', Other ''*'', Ident ''id'']
     = expand (macros header_state) []
         [Ident ''memory_take_possession'', Ident ''char'', Other ''*'', Ident ''id'']
   \<and> expand (macros header_state) []
         [Ident ''m_o_'', LParen, Ident ''ex'', RParen, Ident ''char'', Other ''*'', Ident ''id'']
     = expand (macros header_state) []
         [Ident ''memory_owner_of'', LParen, Ident ''ex'', RParen,
          Ident ''char'', Other ''*'', Ident ''id'']
   \<and> filter (\<lambda>n. take 2 n = ''m_'') (defined header_state)
     = [''m_g'', ''m_o'', ''m_t'', ''m_o_'', ''m_rc'', ''m_io'', ''m_out'']"
proof -
  note h = include_header_initial_state initial_state_ready
  note t = short_forms_same_as_long_forms[OF h]
  have a: "collect_args 0 [] [] [Ident ''ex'', RParen, Ident ''char'', Other ''*'', Ident ''id'']
    = Some ([[Ident ''ex'']], [Ident ''char'', Other ''*'', Ident ''id''])"
    by simp
  have r: "map_of (macros header_state) ''m_t'' = Some (Object_like [])"
    "map_of (macros header_state) ''memory_take_possession'' = Some (Object_like [])"
    by (simp_all add: header_state_eq memory_notation_h_def)
  have e1: "expand (macros header_state) [] [Ident ''m_t'', Ident ''char'', Other ''*'', Ident ''id'']
     = expand (macros header_state) []
         [Ident ''memory_take_possession'', Ident ''char'', Other ''*'', Ident ''id'']"
    using t by (simp del: expand.simps)
  have e2: "expand (macros header_state) []
         [Ident ''m_o_'', LParen, Ident ''ex'', RParen, Ident ''char'', Other ''*'', Ident ''id'']
     = expand (macros header_state) []
         [Ident ''memory_owner_of'', LParen, Ident ''ex'', RParen,
          Ident ''char'', Other ''*'', Ident ''id'']"
    using t a by blast
  have d: "filter (\<lambda>n. take 2 n = ''m_'') (defined header_state)
     = [''m_g'', ''m_o'', ''m_t'', ''m_o_'', ''m_rc'', ''m_io'', ''m_out'']"
    using t by (simp add: initial_state_def)
  show ?thesis
    using h r e1 e2 d by (simp del: expand.simps)
qed

text \<open>
  Claim C10. Including the header \<open>k + 1\<close> times in a row gives the same result as
  including it once: the same macro table and the same list of executed
  \<^verbatim>\<open>#define\<close> directives (or the same error). After a successful inclusion a
  further inclusion leaves the state as it is, and so does any inclusion made while
  \<^verbatim>\<open>__MEMORY_NOTATION_H__\<close> is defined: the guard skips every definition, so none
  is executed again.
\<close>

theorem repeated_inclusion_is_idempotent:
  "include_repeatedly (Suc k) memory_notation_h st = include_file memory_notation_h st
   \<and> (include_file memory_notation_h st = Inr st1 \<longrightarrow>
        include_file memory_notation_h st1 = Inr st1)
   \<and> (map_of (macros st) ''__MEMORY_NOTATION_H__'' \<noteq> None \<longrightarrow>
        include_file memory_notation_h st = Inr st)"
proof (intro conjI impI)
  show "include_repeatedly (Suc k) memory_notation_h st = include_file memory_notation_h st"
  proof (induction k)
    case 0
    then show ?case by (simp split: sum.splits)
  next
    case (Suc k)
    show ?case
    proof (cases "include_file memory_notation_h st")
      case (Inl e)
      then show ?thesis by simp
    next
      case (Inr s)
      have "include_repeatedly (Suc k) memory_notation_h s = Inr s"
        using Suc Inr include_header_again[OF Inr] by (simp split: sum.splits)
      then show ?thesis
        using Inr include_header_again[OF Inr] by (simp split: sum.splits)
    qed
  qed
qed (auto intro: include_header_again include_header_skipped)

text \<open>
  Three inclusions into an empty translation unit: the guard is defined after the
  first, and the second and third change nothing.
\<close>

theorem repeated_inclusion_is_idempotent_witness:
  "include_repeatedly (Suc 2) memory_notation_h initial_state = Inr header_state
   \<and> include_file memory_notation_h initial_state = Inr header_state
   \<and> include_file memory_notation_h header_state = Inr header_state
   \<and> map_of (macros header_state) ''__MEMORY_NOTATION_H__'' \<noteq> None"
proof -
  have g: "map_of (macros header_state) ''__MEMORY_NOTATION_H__'' \<noteq> None"
    by (simp add: header_state_eq memory_notation_h_def)
  show ?thesis
    using g include_header_initial_state
      repeated_inclusion_is_idempotent[of 2 initial_state header_state]
    by simp
qed

end
